theory Spec2Isabelle
  imports Complex_Main "HOL-Library.Log_Nat"
begin

section \<open>JavaScript numbers\<close>

text \<open>
  A JavaScript number is an IEEE 754 binary64 value. The finite ones are modelled as the
  rationals they denote, and every arithmetic operator computes the exact result and rounds
  it to the nearest binary64 value, ties to the even significand. Signed zeros, NaN and the
  infinities are not modelled: the operations of \<^verbatim>\<open>VideoPlayerManager.js\<close> are
  studied on arguments of magnitude far below \<open>2 ^ 1024\<close>, where no overflow occurs.
\<close>

definition ilog2 :: "rat \<Rightarrow> int" where
  \<comment> \<open>the binary exponent of a positive number: \<open>2 ^ e \<le> x < 2 ^ (e + 1)\<close>\<close>
  "ilog2 x = (if 1 \<le> x then bitlen \<lfloor>x\<rfloor> - 1 else - bitlen (\<lceil>1 / x\<rceil> - 1))"

definition rne :: "rat \<Rightarrow> int" where
  \<comment> \<open>nearest integer, a tie going to the even neighbour\<close>
  "rne q = (let f = \<lfloor>q\<rfloor>; r = q - of_int f in
     if r < 1 / 2 then f
     else if 1 / 2 < r then f + 1
     else if even f then f else f + 1)"

definition ulp :: "rat \<Rightarrow> rat" where
  \<comment> \<open>spacing of the binary64 values around \<open>x\<close>: 53 significant bits, exponents from -1022\<close>
  "ulp x = 2 powi (max (ilog2 \<bar>x\<bar>) (- 1022) - 52)"

definition to_double :: "rat \<Rightarrow> rat" where
  "to_double x = (if x = 0 then 0 else of_int (rne (x / ulp x)) * ulp x)"

definition is_double :: "rat \<Rightarrow> bool" where
  "is_double x \<longleftrightarrow> to_double x = x"

definition js_add :: "rat \<Rightarrow> rat \<Rightarrow> rat" where
  "js_add a b = to_double (a + b)"

definition js_sub :: "rat \<Rightarrow> rat \<Rightarrow> rat" where
  "js_sub a b = to_double (a - b)"

definition js_mul :: "rat \<Rightarrow> rat \<Rightarrow> rat" where
  "js_mul a b = to_double (a * b)"

definition js_div :: "rat \<Rightarrow> rat \<Rightarrow> rat" where
  "js_div a b = to_double (a / b)"

definition Math_round :: "rat \<Rightarrow> rat" where
  \<comment> \<open>\<^verbatim>\<open>Math.round\<close>: the nearest integer, a tie going towards plus infinity\<close>
  "Math_round x = of_int \<lfloor>x + 1 / 2\<rfloor>"

definition lit_0_05 :: rat where
  \<comment> \<open>the literal \<^verbatim>\<open>0.05\<close>, which is not a binary fraction\<close>
  "lit_0_05 = to_double (5 / 100)"

subsection \<open>Rounding to two decimals, as the specification words it\<close>

text \<open>
  Round-half-up at two decimal places in exact arithmetic, to compare with what
  \<^verbatim>\<open>roundBy2Decimals\<close> computes in binary64. A number \<open>y\<close> is clear of a tie when no
  number within \<open>10\<^sup>-\<^sup>1\<^sup>2\<close> of it has a different round-half-up integer.
\<close>

definition round_half_up_2dec :: "rat \<Rightarrow> rat" where
  "round_half_up_2dec x = of_int \<lfloor>x * 100 + 1 / 2\<rfloor> / 100"

definition clear_of_tie :: "rat \<Rightarrow> bool" where
  "clear_of_tie y \<longleftrightarrow> \<lfloor>y + 1 / 2 - 1 / 10 ^ 12\<rfloor> = \<lfloor>y + 1 / 2 + 1 / 10 ^ 12\<rfloor>"

section \<open>The video element and its surroundings\<close>

text \<open>
  What a property of the owner document that refers to an element can hold.
\<close>

datatype jsval = Undefined | Null | ElementRef

text \<open>
  Calls that leave the component: native methods of the video element and of its owner
  document, and the failure display of the interface manager. An exception that a
  listener throws is reported by the browser and not passed on to the code that
  dispatched the event.
\<close>

datatype error = TypeError

datatype call =
    Play
  | Pause
  | DispatchEvent string
  | WebkitRequestFullScreen
  | MozRequestFullScreen
  | MsRequestFullscreen
  | WebkitExitFullscreen
  | MozCancelFullScreen
  | MsExitFullscreen
  | ShowFailureMessage
  | ReportException error

text \<open>
  The state the methods and listeners of the component read and write. A field named after
  a method of the browser (\<open>webkitRequestFullscreen\<close>, \<open>mozCancelFullScreen\<close>, ...) tells
  whether the property is present (a function) or \<^verbatim>\<open>undefined\<close>. \<open>styles\<close> holds
  \<^verbatim>\<open>style.cssText\<close> of the elements of \<^verbatim>\<open>interfaceManager.document\<close>, by element id;
  \<open>timers\<close> holds the pending \<^verbatim>\<open>setTimeout\<close> callbacks of the feedback listener, each
  with its due time in milliseconds and the id of the icon it hides; \<open>now\<close> is the clock.
  The component reads \<open>webkitFullscreenElement\<close> only; \<open>mozFullScreenElement\<close> and
  \<open>msFullscreenElement\<close> are what the other engines report.
\<close>

record world =
  currentTime :: rat
  paused :: bool
  volume :: rat
  playbackRate :: rat
  muted :: bool
  webkitRequestFullscreen :: bool
  webkitRequestFullScreen :: bool
  mozRequestFullScreen :: bool
  msRequestFullscreen :: bool
  webkitFullscreenElement :: jsval
  mozFullScreenElement :: jsval
  msFullscreenElement :: jsval
  webkitExitFullscreen :: bool
  mozCancelFullScreen :: bool
  msExitFullscreen :: bool
  styles :: "string \<rightharpoonup> string"
  timers :: "(nat \<times> string) list"
  now :: nat
  calls :: "call list"

definition emit :: "call \<Rightarrow> world \<Rightarrow> world" where
  "emit c w = w\<lparr>calls := calls w @ [c]\<rparr>"

subsection \<open>Native methods of the media element\<close>

text \<open>
  \<^verbatim>\<open>play()\<close> and \<^verbatim>\<open>pause()\<close> belong to the browser; they are modelled by their effect
  on the \<^verbatim>\<open>paused\<close> attribute.
\<close>

definition play :: "world \<Rightarrow> world" where
  "play w = emit Play (w\<lparr>paused := False\<rparr>)"

definition pause :: "world \<Rightarrow> world" where
  "pause w = emit Pause (w\<lparr>paused := True\<rparr>)"

subsection \<open>Visual feedback (\<^verbatim>\<open>enablePlayPauseFeedback\<close>)\<close>

definition querySelector :: "world \<Rightarrow> string \<Rightarrow> string option" where
  \<comment> \<open>only id selectors \<^verbatim>\<open>#id\<close> occur; the element found is named by its id\<close>
  "querySelector w sel =
     (case sel of
        [] \<Rightarrow> None
      | c # i \<Rightarrow> if c = CHR ''#'' \<and> styles w i \<noteq> None then Some i else None)"

definition setTimeout :: "string \<Rightarrow> nat \<Rightarrow> world \<Rightarrow> world" where
  \<comment> \<open>schedules the callback that hides the element \<open>i\<close>\<close>
  "setTimeout i delay w = w\<lparr>timers := timers w @ [(now w + delay, i)]\<rparr>"

definition updateVisualFeedback :: "bool \<Rightarrow> world \<Rightarrow> error + world" where
  "updateVisualFeedback isVideoPaused w =
     (case querySelector w (if isVideoPaused then ''#pauseFeedback'' else ''#playFeedback'') of
        None \<Rightarrow> Inl TypeError
      | Some feedback \<Rightarrow>
          Inr (setTimeout feedback 500 (w\<lparr>styles := (styles w)(feedback \<mapsto> '''')\<rparr>)))"

definition onTogglePlayPause :: "world \<Rightarrow> error + world" where
  \<comment> \<open>the listener that \<^verbatim>\<open>enablePlayPauseFeedback\<close> registers on the video\<close>
  "onTogglePlayPause w = updateVisualFeedback (paused w) w"

definition hide :: "string \<Rightarrow> world \<Rightarrow> world" where
  \<comment> \<open>the timer callback: \<^verbatim>\<open>feedback.style.cssText = "display: none;"\<close>\<close>
  "hide i w = w\<lparr>styles := (styles w)(i \<mapsto> ''display: none;'')\<rparr>"

definition run_due :: "world \<Rightarrow> world" where
  \<comment> \<open>the event loop runs every callback that is due, in the order of registration\<close>
  "run_due w =
     fold (\<lambda>(d, i). hide i) (filter (\<lambda>(d, i). d \<le> now w) (timers w))
       (w\<lparr>timers := filter (\<lambda>(d, i). \<not> d \<le> now w) (timers w)\<rparr>)"

definition advance_to :: "nat \<Rightarrow> world \<Rightarrow> world" where
  "advance_to t w = run_due (w\<lparr>now := max (now w) t\<rparr>)"

definition visible :: "world \<Rightarrow> string \<Rightarrow> bool" where
  \<comment> \<open>the element is in the document and its inline style does not hide it\<close>
  "visible w i = (case styles w i of None \<Rightarrow> False | Some s \<Rightarrow> s \<noteq> ''display: none;'')"

subsection \<open>Methods added by \<^verbatim>\<open>createVideoFunctions\<close>\<close>

definition roundBy2Decimals :: "rat \<Rightarrow> rat" where
  "roundBy2Decimals number = js_div (Math_round (js_mul number 100)) 100"

definition goForward :: "rat \<Rightarrow> world \<Rightarrow> world" where
  "goForward seconds w = w\<lparr>currentTime := js_add (currentTime w) seconds\<rparr>"

definition goBack :: "rat \<Rightarrow> world \<Rightarrow> world" where
  "goBack seconds w = w\<lparr>currentTime := js_sub (currentTime w) seconds\<rparr>"

definition dispatch_togglePlayPause :: "world \<Rightarrow> world" where
  \<comment> \<open>\<^verbatim>\<open>this.dispatchEvent(new Event("togglePlayPause"))\<close>: the listener runs at once\<close>
  "dispatch_togglePlayPause w =
     (let w1 = emit (DispatchEvent ''togglePlayPause'') w in
      case onTogglePlayPause w1 of
        Inl e \<Rightarrow> emit (ReportException e) w1
      | Inr w2 \<Rightarrow> w2)"

definition togglePlayPause :: "world \<Rightarrow> world" where
  "togglePlayPause w = dispatch_togglePlayPause (if paused w then play w else pause w)"

definition goToSpecificTime :: "rat \<Rightarrow> world \<Rightarrow> world" where
  "goToSpecificTime seconds w = w\<lparr>currentTime := seconds\<rparr>"

definition increaseVolumeBy5Percent :: "world \<Rightarrow> world" where
  "increaseVolumeBy5Percent w =
     w\<lparr>volume := min (roundBy2Decimals (js_add (volume w) lit_0_05)) 1\<rparr>"

definition decreaseVolumeBy5Percent :: "world \<Rightarrow> world" where
  "decreaseVolumeBy5Percent w =
     w\<lparr>volume := max 0 (roundBy2Decimals (js_sub (volume w) lit_0_05))\<rparr>"

definition increaseSpeed :: "world \<Rightarrow> world" where
  "increaseSpeed w = w\<lparr>playbackRate := min (js_add (playbackRate w) (1 / 4)) 2\<rparr>"

definition decreaseSpeed :: "world \<Rightarrow> world" where
  "decreaseSpeed w = w\<lparr>playbackRate := max (1 / 4) (js_sub (playbackRate w) (1 / 4))\<rparr>"

definition toggleMuteUnmuteAudio :: "world \<Rightarrow> world" where
  "toggleMuteUnmuteAudio w = w\<lparr>muted := \<not> muted w\<rparr>"

definition isFullScreenModeEnabled :: "world \<Rightarrow> bool" where
  "isFullScreenModeEnabled w \<longleftrightarrow> webkitFullscreenElement w \<noteq> Null"

definition invoke :: "bool \<Rightarrow> call \<Rightarrow> world \<Rightarrow> error + world" where
  \<comment> \<open>a method call \<^verbatim>\<open>obj.name()\<close>: a TypeError when the property is \<^verbatim>\<open>undefined\<close>\<close>
  "invoke present c w = (if present then Inr (emit c w) else Inl TypeError)"

definition enterFullScreenMode :: "world \<Rightarrow> error + world" where
  "enterFullScreenMode w =
     (if webkitRequestFullscreen w then invoke (webkitRequestFullScreen w) WebkitRequestFullScreen w
      else if mozRequestFullScreen w then invoke (mozRequestFullScreen w) MozRequestFullScreen w
      else if msRequestFullscreen w then invoke (msRequestFullscreen w) MsRequestFullscreen w
      else Inr w)"

definition exitFullScreenMode :: "world \<Rightarrow> error + world" where
  "exitFullScreenMode w =
     (if webkitExitFullscreen w then invoke (webkitExitFullscreen w) WebkitExitFullscreen w
      else if mozCancelFullScreen w then invoke (mozCancelFullScreen w) MozCancelFullScreen w
      else if msExitFullscreen w then invoke (msExitFullscreen w) MsExitFullscreen w
      else Inr w)"

definition toggleFullScreenMode :: "world \<Rightarrow> error + world" where
  "toggleFullScreenMode w =
     (if isFullScreenModeEnabled w then exitFullScreenMode w else enterFullScreenMode w)"

subsection \<open>Listeners\<close>

datatype target = VideoTag | SrcTag

definition onClick :: "world \<Rightarrow> error + world" where
  \<comment> \<open>\<^verbatim>\<open>enablePlayPauseVideoControlOnClick\<close>\<close>
  "onClick w = Inr (togglePlayPause w)"

definition onDblClick :: "world \<Rightarrow> error + world" where
  \<comment> \<open>\<^verbatim>\<open>enableFullScreenModeOnDoubleClick\<close>\<close>
  "onDblClick w =
     (if isFullScreenModeEnabled w then exitFullScreenMode w else enterFullScreenMode w)"

definition onSourceError :: "world \<Rightarrow> error + world" where
  \<comment> \<open>\<^verbatim>\<open>srcTag.onerror\<close>\<close>
  "onSourceError w = Inr (emit ShowFailureMessage w)"

definition listener :: "target \<Rightarrow> string \<Rightarrow> (world \<Rightarrow> error + world) option" where
  \<comment> \<open>what the constructor has registered, by target and event type\<close>
  "listener tgt ty =
     (if tgt = VideoTag \<and> ty = ''click'' then Some onClick
      else if tgt = VideoTag \<and> ty = ''dblclick'' then Some onDblClick
      else if tgt = VideoTag \<and> ty = ''togglePlayPause'' then Some onTogglePlayPause
      else if tgt = SrcTag \<and> ty = ''error'' then Some onSourceError
      else None)"

definition fire :: "target \<Rightarrow> string \<Rightarrow> world \<Rightarrow> world" where
  \<comment> \<open>the browser delivers an event of type \<open>ty\<close> to \<open>tgt\<close>\<close>
  "fire tgt ty w =
     (case listener tgt ty of
        None \<Rightarrow> w
      | Some f \<Rightarrow> (case f w of Inl e \<Rightarrow> emit (ReportException e) w | Inr w' \<Rightarrow> w'))"

subsection \<open>Everything that can happen to a constructed player\<close>

datatype action =
    Deliver target string
  | Elapse nat
  | CallGoForward rat
  | CallGoBack rat
  | CallTogglePlayPause
  | CallGoToSpecificTime rat
  | CallIncreaseVolumeBy5Percent
  | CallDecreaseVolumeBy5Percent
  | CallIncreaseSpeed
  | CallDecreaseSpeed
  | CallToggleMuteUnmuteAudio
  | CallToggleFullScreenMode
  | CallEnterFullScreenMode
  | CallExitFullScreenMode

fun step :: "action \<Rightarrow> world \<Rightarrow> error + world" where
  "step (Deliver tgt ty) w = Inr (fire tgt ty w)"
| "step (Elapse t) w = Inr (advance_to (now w + t) w)"
| "step (CallGoForward s) w = Inr (goForward s w)"
| "step (CallGoBack s) w = Inr (goBack s w)"
| "step CallTogglePlayPause w = Inr (togglePlayPause w)"
| "step (CallGoToSpecificTime s) w = Inr (goToSpecificTime s w)"
| "step CallIncreaseVolumeBy5Percent w = Inr (increaseVolumeBy5Percent w)"
| "step CallDecreaseVolumeBy5Percent w = Inr (decreaseVolumeBy5Percent w)"
| "step CallIncreaseSpeed w = Inr (increaseSpeed w)"
| "step CallDecreaseSpeed w = Inr (decreaseSpeed w)"
| "step CallToggleMuteUnmuteAudio w = Inr (toggleMuteUnmuteAudio w)"
| "step CallToggleFullScreenMode w = toggleFullScreenMode w"
| "step CallEnterFullScreenMode w = enterFullScreenMode w"
| "step CallExitFullScreenMode w = exitFullScreenMode w"

subsection \<open>A player right after construction\<close>

text \<open>
  The video plays at full volume and normal speed, both feedback icons are part of the
  document and hidden, no timer is pending and nothing has been called yet. No fullscreen
  interface is present; the examples below add the ones of the engine they describe.
\<close>

definition fresh :: world where
  "fresh = \<lparr>currentTime = 0, paused = False, volume = 1, playbackRate = 1, muted = False,
     webkitRequestFullscreen = False, webkitRequestFullScreen = False,
     mozRequestFullScreen = False, msRequestFullscreen = False,
     webkitFullscreenElement = Undefined, mozFullScreenElement = Undefined,
     msFullscreenElement = Undefined,
     webkitExitFullscreen = False, mozCancelFullScreen = False, msExitFullscreen = False,
     styles = [''pauseFeedback'' \<mapsto> ''display: none;'', ''playFeedback'' \<mapsto> ''display: none;''],
     timers = [], now = 0, calls = []\<rparr>"

subsection \<open>Toggles over time\<close>

text \<open>
  The user toggles play and pause at the times \<open>ts\<close> (milliseconds, ascending); before each
  toggle the clock moves to its time and the callbacks due by then run. \<open>at_time ts t w\<close> is
  the state at time \<open>t\<close>: the toggles up to \<open>t\<close> have happened, and so have the callbacks
  due by \<open>t\<close>. A callback registered at \<open>\<tau>\<close> with delay 500 runs as soon as the clock
  reaches \<open>\<tau> + 500\<close>.
\<close>

fun toggles :: "nat list \<Rightarrow> world \<Rightarrow> world" where
  "toggles [] w = w"
| "toggles (t # ts) w = toggles ts (togglePlayPause (advance_to t w))"

definition at_time :: "nat list \<Rightarrow> nat \<Rightarrow> world \<Rightarrow> world" where
  "at_time ts t w = advance_to t (toggles (takeWhile (\<lambda>\<tau>. \<tau> \<le> t) ts) w)"

definition exactly_one_visible :: "world \<Rightarrow> bool" where
  "exactly_one_visible w \<longleftrightarrow> visible w ''pauseFeedback'' \<noteq> visible w ''playFeedback''"

definition none_visible :: "world \<Rightarrow> bool" where
  "none_visible w \<longleftrightarrow> \<not> visible w ''pauseFeedback'' \<and> \<not> visible w ''playFeedback''"

definition feedback_claim :: "nat list \<Rightarrow> nat \<Rightarrow> world \<Rightarrow> bool" where
  \<comment> \<open>one icon shows at \<open>t\<close> when a toggle lies at most 500 ms back, none otherwise\<close>
  "feedback_claim ts t w =
     (if \<exists>\<tau>\<in>set ts. \<tau> \<le> t \<and> t < \<tau> + 500
      then exactly_one_visible (at_time ts t w) else none_visible (at_time ts t w))"

fun spaced :: "nat list \<Rightarrow> bool" where
  \<comment> \<open>each toggle comes at least 500 ms after the one before\<close>
  "spaced [] = True"
| "spaced [t] = True"
| "spaced (t # u # ts) = (t + 500 \<le> u \<and> spaced (u # ts))"

definition settled :: "world \<Rightarrow> bool" where
  \<comment> \<open>both icons are in the document and hidden, and no callback is pending\<close>
  "settled w \<longleftrightarrow>
     styles w ''pauseFeedback'' \<noteq> None \<and> styles w ''playFeedback'' \<noteq> None
     \<and> none_visible w \<and> timers w = []"

definition showing :: "world \<Rightarrow> nat \<Rightarrow> bool" where
  \<comment> \<open>one icon shows, and the one pending callback hides it at \<open>d\<close>\<close>
  "showing w d \<longleftrightarrow>
     styles w ''pauseFeedback'' \<noteq> None \<and> styles w ''playFeedback'' \<noteq> None \<and> now w < d
     \<and> (timers w = [(d, ''pauseFeedback'')] \<and> visible w ''pauseFeedback''
           \<and> \<not> visible w ''playFeedback''
         \<or> timers w = [(d, ''playFeedback'')] \<and> visible w ''playFeedback''
           \<and> \<not> visible w ''pauseFeedback'')"

section \<open>Construction\<close>

text \<open>
  The constructor builds a tree of DOM nodes. A node has a tag name, the properties and
  attributes that the script or the markup has set, the types of the events it listens to
  (in the order of registration) and its children. A property that holds a function
  (a method added by \<^verbatim>\<open>createVideoFunctions\<close>, the \<^verbatim>\<open>onerror\<close> handler) is
  recorded as \<open>Fn\<close>; what these functions do is the subject of the sections above.
\<close>

datatype jsvalue = B bool | S string | Fn

datatype element =
  Element (tagName: string) (props: "string \<rightharpoonup> jsvalue") (listening: "string list")
    (childNodes: "element list")

definition createElement :: "string \<Rightarrow> element" where
  "createElement tag = Element tag Map.empty [] []"

definition assign :: "string \<Rightarrow> jsvalue \<Rightarrow> element \<Rightarrow> element" where
  \<comment> \<open>\<^verbatim>\<open>e.k = v\<close>\<close>
  "assign k v e = Element (tagName e) ((props e)(k \<mapsto> v)) (listening e) (childNodes e)"

definition addEventListener :: "string \<Rightarrow> element \<Rightarrow> element" where
  "addEventListener ty e = Element (tagName e) (props e) (listening e @ [ty]) (childNodes e)"

definition appendChild :: "element \<Rightarrow> element \<Rightarrow> element" where
  \<comment> \<open>\<open>appendChild parent child\<close>, for a child that is not in the tree yet\<close>
  "appendChild parent child =
     Element (tagName parent) (props parent) (listening parent) (childNodes parent @ [child])"

definition createVideoFunctions :: "element \<Rightarrow> element" where
  "createVideoFunctions video =
     fold (\<lambda>k. assign k Fn)
       [''goForward'', ''goBack'', ''togglePlayPause'', ''goToSpecificTime'',
        ''increaseVolumeBy5Percent'', ''decreaseVolumeBy5Percent'', ''increaseSpeed'',
        ''decreaseSpeed'', ''toggleMuteUnmuteAudio'', ''isFullScreenModeEnabled'',
        ''toggleFullScreenMode'', ''enterFullScreenMode'', ''exitFullScreenMode'']
       video"

definition enableFullScreenModeOnDoubleClick :: "element \<Rightarrow> element" where
  "enableFullScreenModeOnDoubleClick video = addEventListener ''dblclick'' video"

definition enablePlayPauseVideoControlOnClick :: "element \<Rightarrow> element" where
  "enablePlayPauseVideoControlOnClick video = addEventListener ''click'' video"

definition createVideoElement :: "string \<Rightarrow> element" where
  "createVideoElement videoLink =
     (let videoTag = createElement ''video'';
          srcTag = createElement ''source'';
          videoTag = assign ''controls'' (B True) videoTag;
          videoTag = assign ''autoplay'' (B True) videoTag;
          videoTag = assign ''name'' (S ''media'') videoTag;
          videoTag = assign ''style.width'' (S ''100%'') videoTag;
          videoTag = assign ''id'' (S ''videoTag'') videoTag;
          videoTag = assign ''className'' (S ''video-stream html5-main-video'') videoTag;
          videoTag = createVideoFunctions videoTag;
          videoTag = enableFullScreenModeOnDoubleClick videoTag;
          videoTag = enablePlayPauseVideoControlOnClick videoTag;
          srcTag = assign ''src'' (S videoLink) srcTag;
          srcTag = assign ''type'' (S ''video/mp4'') srcTag;
          srcTag = assign ''onerror'' Fn srcTag
      in appendChild videoTag srcTag)"

text \<open>
  \<^verbatim>\<open>createFeedbackIcon\<close> writes markup into \<^verbatim>\<open>innerHTML\<close> of a scratch \<^verbatim>\<open>div\<close> and
  returns its first child; the definition gives the node that the parser builds from that
  markup, with the attributes of each tag in the order they are written.
\<close>

definition createFeedbackIcon :: "string \<Rightarrow> string \<Rightarrow> element" where
  "createFeedbackIcon i svgPath =
     Element ''div''
       [''id'' \<mapsto> S i, ''class'' \<mapsto> S ''ytp-bezel'', ''role'' \<mapsto> S ''status'',
        ''data-layer'' \<mapsto> S ''4'', ''style'' \<mapsto> S ''display: none;''] []
       [Element ''div'' [''class'' \<mapsto> S ''ytp-bezel-icon''] []
          [Element ''svg''
             [''height'' \<mapsto> S ''100%'', ''version'' \<mapsto> S ''1.1'',
              ''viewBox'' \<mapsto> S ''0 0 36 36'', ''width'' \<mapsto> S ''100%''] []
             [Element ''use''
                [''class'' \<mapsto> S ''ytp-svg-shadow'',
                 ''xmlns:xlink'' \<mapsto> S ''http://www.w3.org/1999/xlink'',
                 ''xlink:href'' \<mapsto> S (''#ytp-id-'' @ i)] [] [],
              Element ''path''
                [''class'' \<mapsto> S ''ytp-svg-fill'', ''d'' \<mapsto> S svgPath,
                 ''id'' \<mapsto> S (''ytp-id-'' @ i)] [] []]]]"

definition createAllFeedbackIcons :: "element \<Rightarrow> element" where
  "createAllFeedbackIcons outerDiv =
     (let pauseFeedback = createFeedbackIcon ''pauseFeedback''
            ''M 12,26 16,26 16,10 12,10 z M 21,26 25,26 25,10 21,10 z'';
          playFeedback = createFeedbackIcon ''playFeedback''
            ''M 12,26 18.5,22 18.5,14 12,10 z M 18.5,22 25,18 25,18 18.5,14 z''
      in appendChild (appendChild outerDiv pauseFeedback) playFeedback)"

definition enablePlayPauseFeedback :: "element \<Rightarrow> element" where
  "enablePlayPauseFeedback video = addEventListener ''togglePlayPause'' video"

text \<open>
  The shortcut manager is not part of this file: its constructor is a parameter, which
  receives the video element.
\<close>

record ('im, 'sm) manager =
  interfaceManager :: 'im
  outerDiv :: element
  video :: element
  shortcutManager :: 'sm

definition VideoPlayerManager ::
  "(element \<Rightarrow> 'sm) \<Rightarrow> string \<Rightarrow> element \<Rightarrow> 'im \<Rightarrow> ('im, 'sm) manager" where
  "VideoPlayerManager VideoShortcutManager videoLink container im =
     (let video0 = createVideoElement videoLink;
          sm = VideoShortcutManager video0;
          div1 = createAllFeedbackIcons container;
          video1 = enablePlayPauseFeedback video0;
          div2 = appendChild div1 video1
      in \<lparr>interfaceManager = im, outerDiv = div2, video = video1, shortcutManager = sm\<rparr>)"

section \<open>Play and pause\<close>

lemma calls_emit: "calls (emit c w) = calls w @ [c]"
  by (simp add: emit_def)

text \<open>
  C3. \<^verbatim>\<open>togglePlayPause\<close> calls \<^verbatim>\<open>play\<close> when the video is paused and \<^verbatim>\<open>pause\<close>
  when it is not, and then dispatches one \<^verbatim>\<open>togglePlayPause\<close> event: these two calls,
  in this order, are all that is added to the calls made so far, apart from the report of
  the listener's exception when the icon it looks for is not in the document.
\<close>

theorem togglePlayPause_calls:
  "calls (togglePlayPause w) =
     calls w @ [if paused w then Play else Pause, DispatchEvent ''togglePlayPause'']
       @ (if styles w (if paused w then ''playFeedback'' else ''pauseFeedback'') = None
          then [ReportException TypeError] else [])"
  by (simp add: togglePlayPause_def dispatch_togglePlayPause_def onTogglePlayPause_def
      updateVisualFeedback_def querySelector_def setTimeout_def play_def pause_def emit_def)

theorem togglePlayPause_calls_witness:
  "calls (togglePlayPause (fresh\<lparr>paused := True\<rparr>)) = [Play, DispatchEvent ''togglePlayPause'']
   \<and> calls (togglePlayPause fresh) = [Pause, DispatchEvent ''togglePlayPause'']"
  using togglePlayPause_calls [of "fresh\<lparr>paused := True\<rparr>"] togglePlayPause_calls [of fresh]
  by (simp add: fresh_def)

section \<open>Fullscreen\<close>

text \<open>
  C9. The first branch of \<^verbatim>\<open>enterFullScreenMode\<close> tests \<^verbatim>\<open>webkitRequestFullscreen\<close>
  and calls \<^verbatim>\<open>webkitRequestFullScreen\<close>: on an element that has the former and not the
  latter the call is a call of \<^verbatim>\<open>undefined\<close> and raises a TypeError.
\<close>

theorem enterFullScreenMode_calls_absent_function:
  "webkitRequestFullscreen w \<Longrightarrow> \<not> webkitRequestFullScreen w \<Longrightarrow>
     enterFullScreenMode w = Inl TypeError"
  by (simp add: enterFullScreenMode_def invoke_def)

theorem enterFullScreenMode_calls_absent_function_witness:
  "enterFullScreenMode (fresh\<lparr>webkitRequestFullscreen := True\<rparr>) = Inl TypeError"
  using enterFullScreenMode_calls_absent_function [of "fresh\<lparr>webkitRequestFullscreen := True\<rparr>"]
  by (simp add: fresh_def)

text \<open>
  C8. When none of the request functions that \<^verbatim>\<open>enterFullScreenMode\<close> looks for is present
  on the element, it returns normally and leaves everything as it was, calling nothing; so
  does \<^verbatim>\<open>exitFullScreenMode\<close> when none of the exit functions is present on the owner
  document.
\<close>

theorem no_fullscreen_interface_is_silent:
  "(\<not> webkitRequestFullscreen w \<and> \<not> mozRequestFullScreen w \<and> \<not> msRequestFullscreen w
      \<longrightarrow> enterFullScreenMode w = Inr w)
   \<and> (\<not> webkitExitFullscreen w \<and> \<not> mozCancelFullScreen w \<and> \<not> msExitFullscreen w
      \<longrightarrow> exitFullScreenMode w = Inr w)"
  by (simp add: enterFullScreenMode_def exitFullScreenMode_def)

theorem no_fullscreen_interface_is_silent_witness:
  "enterFullScreenMode fresh = Inr fresh \<and> exitFullScreenMode fresh = Inr fresh"
  using no_fullscreen_interface_is_silent [of fresh]
  by (simp add: fresh_def)

text \<open>
  C2. The query looks at \<^verbatim>\<open>webkitFullscreenElement\<close> alone. In an engine that has the
  \<^verbatim>\<open>moz\<close> interface only, with no element in fullscreen, that property is
  \<^verbatim>\<open>undefined\<close>, the query answers yes, and the toggle leaves fullscreen instead of
  entering it. And where \<^verbatim>\<open>webkitRequestFullscreen\<close> is the first request function
  present, \<^verbatim>\<open>enterFullScreenMode\<close> does not call it.
\<close>

theorem fullscreen_query_on_moz_engine:
  "isFullScreenModeEnabled
     (fresh\<lparr>mozFullScreenElement := Null, mozRequestFullScreen := True, mozCancelFullScreen := True\<rparr>)
   \<and> toggleFullScreenMode
     (fresh\<lparr>mozFullScreenElement := Null, mozRequestFullScreen := True, mozCancelFullScreen := True\<rparr>)
     = Inr (emit MozCancelFullScreen
         (fresh\<lparr>mozFullScreenElement := Null, mozRequestFullScreen := True, mozCancelFullScreen := True\<rparr>))
   \<and> enterFullScreenMode (fresh\<lparr>webkitRequestFullscreen := True, mozRequestFullScreen := True\<rparr>)
     = Inl TypeError"
  by (simp add: isFullScreenModeEnabled_def toggleFullScreenMode_def exitFullScreenMode_def
      enterFullScreenMode_def invoke_def fresh_def)

section \<open>Failure of the media source\<close>

lemma calls_togglePlayPause_no_failure:
  "count_list (calls (togglePlayPause w)) ShowFailureMessage = count_list (calls w) ShowFailureMessage"
  by (simp add: togglePlayPause_def dispatch_togglePlayPause_def onTogglePlayPause_def
      updateVisualFeedback_def querySelector_def setTimeout_def play_def pause_def emit_def)

lemma calls_fold_hide: "calls (fold (\<lambda>(d, i). hide i) xs w) = calls w"
  by (induction xs arbitrary: w) (auto simp: hide_def)

lemma calls_advance_to: "calls (advance_to t w) = calls w"
  by (simp add: advance_to_def run_due_def calls_fold_hide)

lemma calls_enterFullScreenMode:
  "enterFullScreenMode w = Inr w' \<Longrightarrow>
     count_list (calls w') ShowFailureMessage = count_list (calls w) ShowFailureMessage"
  by (auto simp: enterFullScreenMode_def invoke_def emit_def split: if_splits)

lemma calls_exitFullScreenMode:
  "exitFullScreenMode w = Inr w' \<Longrightarrow>
     count_list (calls w') ShowFailureMessage = count_list (calls w) ShowFailureMessage"
  by (auto simp: exitFullScreenMode_def invoke_def emit_def split: if_splits)

lemma calls_fire:
  "count_list (calls (fire tgt ty w)) ShowFailureMessage =
     count_list (calls w) ShowFailureMessage + (if tgt = SrcTag \<and> ty = ''error'' then 1 else 0)"
proof -
  have dbl: "count_list (calls (case onDblClick w of Inl e \<Rightarrow> emit (ReportException e) w | Inr w' \<Rightarrow> w'))
      ShowFailureMessage = count_list (calls w) ShowFailureMessage"
    by (auto simp: onDblClick_def emit_def split: sum.splits
        dest: calls_enterFullScreenMode calls_exitFullScreenMode)
  have tpp: "count_list (calls (case onTogglePlayPause w of Inl e \<Rightarrow> emit (ReportException e) w | Inr w' \<Rightarrow> w'))
      ShowFailureMessage = count_list (calls w) ShowFailureMessage"
    by (simp add: onTogglePlayPause_def updateVisualFeedback_def setTimeout_def emit_def
        split: option.splits)
  show ?thesis
    using dbl tpp
    by (simp add: fire_def listener_def onClick_def onSourceError_def emit_def
        calls_togglePlayPause_no_failure)
qed

text \<open>
  C7. Whatever happens to a constructed player (an event delivered to the video or to its
  source, time passing, a call of one of the video's methods), the number of calls of
  \<^verbatim>\<open>showFailureMessage\<close> grows by one when the event is the \<^verbatim>\<open>error\<close> event of the
  source element and does not change otherwise; and delivering that event always ends
  with exactly that call added.
\<close>

theorem showFailureMessage_only_on_source_error:
  "step (Deliver SrcTag ''error'') w = Inr (emit ShowFailureMessage w)
   \<and> (step a w = Inr w' \<longrightarrow>
        count_list (calls w') ShowFailureMessage =
          count_list (calls w) ShowFailureMessage + (if a = Deliver SrcTag ''error'' then 1 else 0))"
proof
  show "step (Deliver SrcTag ''error'') w = Inr (emit ShowFailureMessage w)"
    by (simp add: fire_def listener_def onSourceError_def)
  show "step a w = Inr w' \<longrightarrow>
        count_list (calls w') ShowFailureMessage =
          count_list (calls w) ShowFailureMessage + (if a = Deliver SrcTag ''error'' then 1 else 0)"
  proof (cases a)
    case (Deliver tgt ty)
    then show ?thesis using calls_fire [of tgt ty w] by auto
  next
    case CallToggleFullScreenMode
    then show ?thesis
      by (auto simp: toggleFullScreenMode_def
          dest: calls_enterFullScreenMode calls_exitFullScreenMode split: if_splits)
  qed (auto simp: calls_advance_to calls_togglePlayPause_no_failure goForward_def goBack_def
      goToSpecificTime_def increaseVolumeBy5Percent_def decreaseVolumeBy5Percent_def
      increaseSpeed_def decreaseSpeed_def toggleMuteUnmuteAudio_def
      dest: calls_enterFullScreenMode calls_exitFullScreenMode)
qed

theorem showFailureMessage_only_on_source_error_witness:
  "count_list (calls (fire SrcTag ''error'' fresh)) ShowFailureMessage = 1
   \<and> count_list (calls (fire VideoTag ''error'' fresh)) ShowFailureMessage = 0
   \<and> count_list (calls (fire VideoTag ''click'' fresh)) ShowFailureMessage = 0"
  using showFailureMessage_only_on_source_error
          [of fresh "Deliver SrcTag ''error''" "fire SrcTag ''error'' fresh"]
        showFailureMessage_only_on_source_error
          [of fresh "Deliver VideoTag ''error''" "fire VideoTag ''error'' fresh"]
        showFailureMessage_only_on_source_error
          [of fresh "Deliver VideoTag ''click''" "fire VideoTag ''click'' fresh"]
  by (simp add: fresh_def emit_def)

section \<open>Visual feedback\<close>

lemma styles_fold_hide:
  "styles (fold (\<lambda>(d, i). hide i) xs w) i =
     (if i \<in> snd ` set xs then Some ''display: none;'' else styles w i)"
  by (induction xs arbitrary: w) (auto simp: hide_def)

lemma timers_fold_hide: "timers (fold (\<lambda>(d, i). hide i) xs w) = timers w"
  by (induction xs arbitrary: w) (auto simp: hide_def)

lemma now_fold_hide: "now (fold (\<lambda>(d, i). hide i) xs w) = now w"
  by (induction xs arbitrary: w) (auto simp: hide_def)

lemma paused_fold_hide: "paused (fold (\<lambda>(d, i). hide i) xs w) = paused w"
  by (induction xs arbitrary: w) (simp_all add: hide_def split: prod.splits)

lemma styles_advance_to:
  "styles (advance_to t w) i =
     (if \<exists>d. d \<le> max (now w) t \<and> (d, i) \<in> set (timers w)
      then Some ''display: none;'' else styles w i)"
proof -
  have "i \<in> snd ` set (filter (\<lambda>(d, i). d \<le> n) xs) \<longleftrightarrow> (\<exists>d. d \<le> n \<and> (d, i) \<in> set xs)"
    for n :: nat and xs :: "(nat \<times> string) list"
    by (induction xs) auto
  then show ?thesis
    by (auto simp add: advance_to_def run_due_def styles_fold_hide)
qed

lemma timers_advance_to:
  "timers (advance_to t w) = filter (\<lambda>(d, i). \<not> d \<le> max (now w) t) (timers w)"
  by (simp add: advance_to_def run_due_def timers_fold_hide)

lemma now_advance_to: "now (advance_to t w) = max (now w) t"
  by (simp add: advance_to_def run_due_def now_fold_hide)

lemma paused_advance_to: "paused (advance_to t w) = paused w"
  by (simp add: advance_to_def run_due_def paused_fold_hide)

lemma visible_hidden [simp]: "\<not> visible (w\<lparr>styles := (styles w)(i \<mapsto> ''display: none;'')\<rparr>) i"
  by (simp add: visible_def)

lemma settled_advance_to: "settled w \<Longrightarrow> settled (advance_to t w)"
  by (simp add: settled_def none_visible_def visible_def styles_advance_to timers_advance_to)

lemma showing_advance_to_before:
  assumes "showing w d" "t < d"
  shows "showing (advance_to t w) d"
proof -
  from assms have "now w < d"
    by (simp add: showing_def)
  with assms have lt: "\<not> d \<le> max (now w) t"
    by simp
  from assms(1) consider
      (pa) "timers w = [(d, ''pauseFeedback'')]" | (pl) "timers w = [(d, ''playFeedback'')]"
    by (auto simp: showing_def)
  then show ?thesis
  proof cases
    case pa
    with assms lt show ?thesis
      by (simp add: showing_def visible_def styles_advance_to timers_advance_to now_advance_to)
  next
    case pl
    with assms lt show ?thesis
      by (simp add: showing_def visible_def styles_advance_to timers_advance_to now_advance_to)
  qed
qed

lemma showing_advance_to_after:
  assumes "showing w d" "d \<le> t"
  shows "settled (advance_to t w)"
proof -
  from assms have le: "d \<le> max (now w) t"
    by simp
  from assms(1) consider
      (pa) "timers w = [(d, ''pauseFeedback'')]" | (pl) "timers w = [(d, ''playFeedback'')]"
    by (auto simp: showing_def)
  then show ?thesis
  proof cases
    case pa
    with assms le show ?thesis
      by (simp add: showing_def settled_def none_visible_def visible_def styles_advance_to
          timers_advance_to)
  next
    case pl
    with assms le show ?thesis
      by (simp add: showing_def settled_def none_visible_def visible_def styles_advance_to
          timers_advance_to)
  qed
qed

lemma settled_togglePlayPause:
  assumes "settled w"
  shows "showing (togglePlayPause w) (now w + 500)"
proof (cases "paused w")
  case True
  with assms show ?thesis
    by (simp add: showing_def settled_def none_visible_def visible_def togglePlayPause_def
      dispatch_togglePlayPause_def onTogglePlayPause_def updateVisualFeedback_def
      querySelector_def setTimeout_def play_def emit_def split: option.splits)
next
  case False
  with assms show ?thesis
    by (simp add: showing_def settled_def none_visible_def visible_def togglePlayPause_def
      dispatch_togglePlayPause_def onTogglePlayPause_def updateVisualFeedback_def
      querySelector_def setTimeout_def pause_def emit_def split: option.splits)
qed

lemma now_togglePlayPause: "now (togglePlayPause w) = now w"
  by (simp add: togglePlayPause_def
      dispatch_togglePlayPause_def onTogglePlayPause_def updateVisualFeedback_def
      querySelector_def setTimeout_def play_def pause_def emit_def split: option.splits)

lemma spaced_tail: "spaced (t # ts) \<Longrightarrow> spaced ts"
  by (cases ts) auto

lemma spaced_later: "spaced (t # ts) \<Longrightarrow> u \<in> set ts \<Longrightarrow> t + 500 \<le> u"
proof (induction ts arbitrary: t)
  case Nil
  then show ?case by simp
next
  case (Cons a ts)
  then show ?case by (cases ts) auto
qed

lemma at_time_Cons_later: "t < \<tau> \<Longrightarrow> at_time (\<tau> # ts) t w = advance_to t w"
  by (simp add: at_time_def)

lemma at_time_Cons_earlier:
  "\<tau> \<le> t \<Longrightarrow> at_time (\<tau> # ts) t w = at_time ts t (togglePlayPause (advance_to \<tau> w))"
  by (simp add: at_time_def)

lemma showing_exactly_one: "showing w d \<Longrightarrow> exactly_one_visible w"
  by (auto simp: showing_def exactly_one_visible_def)

lemma settled_none: "settled w \<Longrightarrow> none_visible w"
  by (simp add: settled_def)

lemma settled_not_showing: "settled w \<Longrightarrow> \<not> showing w d"
  by (auto simp: settled_def showing_def)

lemma advance_to_cases:
  assumes "settled w \<or> showing w d"
  shows "if showing w d \<and> t < d then showing (advance_to t w) d else settled (advance_to t w)"
  using assms settled_advance_to [of w t] showing_advance_to_before [of w d t]
    showing_advance_to_after [of w d t] settled_not_showing [of w d]
  by (cases "t < d") auto

lemma feedback_main:
  assumes "spaced ts" and "\<forall>u\<in>set ts. now w \<le> u"
    and "settled w \<or> showing w d \<and> (\<forall>u\<in>set ts. d \<le> u)"
  shows "if (\<exists>\<tau>\<in>set ts. \<tau> \<le> t \<and> t < \<tau> + 500) \<or> showing w d \<and> t < d
         then exactly_one_visible (at_time ts t w) else none_visible (at_time ts t w)"
  using assms
proof (induction ts arbitrary: w d)
  case Nil
  have "at_time [] t w = advance_to t w"
    by (simp add: at_time_def)
  moreover from Nil have "settled w \<or> showing w d"
    by auto
  ultimately show ?case
    using advance_to_cases [of w d t] showing_exactly_one settled_none by auto
next
  case (Cons \<tau> ts)
  have later: "\<tau> + 500 \<le> u" if "u \<in> set ts" for u
    using Cons.prems(1) that by (rule spaced_later)
  show ?case
  proof (cases "t < \<tau>")
    case True
    then have "at_time (\<tau> # ts) t w = advance_to t w"
      by (rule at_time_Cons_later)
    moreover from Cons.prems have "settled w \<or> showing w d"
      by auto
    moreover from True later have "\<not> (\<exists>u\<in>set (\<tau> # ts). u \<le> t \<and> t < u + 500)"
      by fastforce
    ultimately show ?thesis
      using advance_to_cases [of w d t] showing_exactly_one settled_none by auto
  next
    case False
    define w0 where "w0 = advance_to \<tau> w"
    define w1 where "w1 = togglePlayPause w0"
    from False have eq: "at_time (\<tau> # ts) t w = at_time ts t w1"
      by (simp add: at_time_Cons_earlier w0_def w1_def)
    from Cons.prems have "\<not> (showing w d \<and> \<tau> < d)"
      using settled_not_showing [of w d] by auto
    moreover from Cons.prems have "settled w \<or> showing w d"
      by auto
    ultimately have "settled w0"
      using advance_to_cases [of w d \<tau>] by (simp add: w0_def)
    moreover from Cons.prems(2) have now0: "now w0 = \<tau>"
      by (simp add: w0_def now_advance_to max_def)
    ultimately have sh: "showing w1 (\<tau> + 500)"
      using settled_togglePlayPause [of w0] by (simp add: w1_def)
    have now1: "now w1 = \<tau>"
      by (simp add: w1_def now_togglePlayPause now0)
    have "spaced ts"
      using Cons.prems(1) by (rule spaced_tail)
    moreover have "\<forall>u\<in>set ts. now w1 \<le> u"
      using later now1 by fastforce
    moreover have "settled w1 \<or> showing w1 (\<tau> + 500) \<and> (\<forall>u\<in>set ts. \<tau> + 500 \<le> u)"
      using sh later by simp
    ultimately have ih: "if (\<exists>u\<in>set ts. u \<le> t \<and> t < u + 500) \<or> showing w1 (\<tau> + 500) \<and> t < \<tau> + 500
         then exactly_one_visible (at_time ts t w1) else none_visible (at_time ts t w1)"
      by (rule Cons.IH)
    have "showing w d \<Longrightarrow> \<not> t < d"
      using Cons.prems(3) False settled_not_showing [of w d] by auto
    then have "((\<exists>u\<in>set (\<tau> # ts). u \<le> t \<and> t < u + 500) \<or> showing w d \<and> t < d)
        \<longleftrightarrow> ((\<exists>u\<in>set ts. u \<le> t \<and> t < u + 500) \<or> showing w1 (\<tau> + 500) \<and> t < \<tau> + 500)"
      using False sh by auto
    with ih eq show ?thesis
      by simp
  qed
qed

text \<open>
  C4, as amended. From a state where both icons are hidden and no callback is pending, and
  for toggles that come at least 500 ms apart: at every time \<open>t\<close>, exactly one of the two
  icons shows when a toggle lies at most 500 ms back (\<open>\<tau> \<le> t < \<tau> + 500\<close>), and both are
  hidden otherwise.
\<close>

theorem feedback_when_spaced:
  assumes "settled w" and "spaced ts" and "\<forall>u\<in>set ts. now w \<le> u"
  shows "feedback_claim ts t w"
  using feedback_main [of ts w 0 t] assms settled_not_showing [of w 0]
  by (simp add: feedback_claim_def)

lemma settled_fresh: "settled fresh"
  by (simp add: settled_def none_visible_def visible_def fresh_def)

theorem feedback_when_spaced_witness:
  "settled fresh \<and> spaced [0, 600] \<and> feedback_claim [0, 600] 700 fresh
   \<and> exactly_one_visible (at_time [0, 600] 700 fresh)"
  using feedback_when_spaced [of fresh "[0, 600]" 700] settled_fresh
  by (simp add: feedback_claim_def fresh_def)

lemmas run_defs = at_time_def advance_to_def run_due_def hide_def togglePlayPause_def
  dispatch_togglePlayPause_def onTogglePlayPause_def updateVisualFeedback_def
  querySelector_def setTimeout_def play_def pause_def emit_def fresh_def

text \<open>
  C4, as stated, for every sequence of toggles. With toggles at 0 and 100 ms on a playing
  video, the first shows the pause icon and the second the play icon, and no callback has
  run at 200 ms: both icons show.
\<close>

theorem feedback_overlap_counterexample:
  "visible (at_time [0, 100] 200 fresh) ''pauseFeedback''
   \<and> visible (at_time [0, 100] 200 fresh) ''playFeedback''
   \<and> \<not> feedback_claim [0, 100] 200 fresh"
  by (simp add: feedback_claim_def exactly_one_visible_def visible_def run_defs)

text \<open>
  A callback left over from an earlier toggle also hides an icon that a later toggle has
  shown again: with toggles at 0, 200 and 400 ms nothing shows at 800 ms, which is within
  500 ms of the last toggle.
\<close>

lemma feedback_stale_timer:
  "none_visible (at_time [0, 200, 400] 800 fresh) \<and> \<not> feedback_claim [0, 200, 400] 800 fresh"
  by (simp add: feedback_claim_def exactly_one_visible_def none_visible_def visible_def run_defs)

text \<open>
  C6. With both icons in the document, the listener of the \<^verbatim>\<open>togglePlayPause\<close> event
  picks the pause icon when the video is paused at that moment and the play icon when it
  is not, clears the inline style of that icon, which shows it at once, and registers one
  callback due 500 ms later. The callback stays pending until then, and once it has run the
  icon is hidden again.
\<close>

theorem feedback_listener_shows_then_hides:
  assumes "styles w ''pauseFeedback'' \<noteq> None" and "styles w ''playFeedback'' \<noteq> None"
    and "icon = (if paused w then ''pauseFeedback'' else ''playFeedback'')"
  shows "\<exists>w'. onTogglePlayPause w = Inr w'
      \<and> styles w' = (styles w)(icon \<mapsto> '''') \<and> visible w' icon
      \<and> timers w' = timers w @ [(now w + 500, icon)]
      \<and> (\<forall>t < now w + 500. (now w + 500, icon) \<in> set (timers (advance_to t w')))
      \<and> \<not> visible (advance_to (now w + 500) w') icon"
proof -
  define w' where "w' = setTimeout icon 500 (w\<lparr>styles := (styles w)(icon \<mapsto> '''')\<rparr>)"
  from assms have "onTogglePlayPause w = Inr w'"
    by (auto simp: onTogglePlayPause_def updateVisualFeedback_def querySelector_def w'_def)
  moreover have st: "styles w' = (styles w)(icon \<mapsto> '''')"
    and ti: "timers w' = timers w @ [(now w + 500, icon)]" and no: "now w' = now w"
    by (simp_all add: w'_def setTimeout_def)
  moreover have "visible w' icon"
    by (simp add: visible_def st)
  moreover have "(now w + 500, icon) \<in> set (timers (advance_to t w'))" if "t < now w + 500" for t
    using that by (auto simp: timers_advance_to ti no)
  moreover have "\<not> visible (advance_to (now w + 500) w') icon"
  proof -
    have "\<exists>d. d \<le> max (now w') (now w + 500) \<and> (d, icon) \<in> set (timers w')"
      by (rule exI [of _ "now w + 500"]) (simp add: ti)
    then show ?thesis
      by (simp add: visible_def styles_advance_to)
  qed
  ultimately show ?thesis
    by blast
qed

theorem feedback_listener_shows_then_hides_witness:
  "\<exists>w'. onTogglePlayPause (fresh\<lparr>paused := True\<rparr>) = Inr w'
     \<and> visible w' ''pauseFeedback'' \<and> timers w' = [(500, ''pauseFeedback'')]
     \<and> \<not> visible (advance_to 500 w') ''pauseFeedback''"
  using feedback_listener_shows_then_hides [of "fresh\<lparr>paused := True\<rparr>" "''pauseFeedback''"]
  by (auto simp: fresh_def)

section \<open>What the constructor appends\<close>

lemma props_fold_assign:
  "props (fold (\<lambda>k. assign k v) ks e) k = (if k \<in> set ks then Some v else props e k)"
  by (induction ks arbitrary: e) (simp_all add: assign_def)

lemma tagName_fold_assign: "tagName (fold (\<lambda>k. assign k v) ks e) = tagName e"
  by (induction ks arbitrary: e) (simp_all add: assign_def)

lemma createVideoElement_controls:
  "props (createVideoElement videoLink) ''controls'' = Some (B True)"
  by (simp add: createVideoElement_def Let_def appendChild_def
      enablePlayPauseVideoControlOnClick_def enableFullScreenModeOnDoubleClick_def
      addEventListener_def createVideoFunctions_def props_fold_assign assign_def)

lemma createVideoElement_autoplay:
  "props (createVideoElement videoLink) ''autoplay'' = Some (B True)"
  by (simp add: createVideoElement_def Let_def appendChild_def
      enablePlayPauseVideoControlOnClick_def enableFullScreenModeOnDoubleClick_def
      addEventListener_def createVideoFunctions_def props_fold_assign assign_def)

lemma createVideoElement_id:
  "props (createVideoElement videoLink) ''id'' = Some (S ''videoTag'')"
  by (simp add: createVideoElement_def Let_def appendChild_def
      enablePlayPauseVideoControlOnClick_def enableFullScreenModeOnDoubleClick_def
      addEventListener_def createVideoFunctions_def props_fold_assign assign_def)

lemma createVideoElement_tagName: "tagName (createVideoElement videoLink) = ''video''"
  by (simp add: createVideoElement_def Let_def appendChild_def
      enablePlayPauseVideoControlOnClick_def enableFullScreenModeOnDoubleClick_def
      addEventListener_def createVideoFunctions_def tagName_fold_assign assign_def
      createElement_def)

lemmas createVideoElement_props = createVideoElement_controls createVideoElement_autoplay
  createVideoElement_id createVideoElement_tagName

text \<open>
  C10. The constructor appends three children to the container it is given, after those
  the container already has: the pause icon, the play icon and the video element, in this
  order. Each icon carries its id and the inline style \<^verbatim>\<open>display: none;\<close>; the video
  element has \<^verbatim>\<open>controls\<close> and \<^verbatim>\<open>autoplay\<close> set to true and the id \<^verbatim>\<open>videoTag\<close>.
\<close>

theorem constructor_appends_icons_then_video:
  "childNodes (outerDiv (VideoPlayerManager VideoShortcutManager videoLink container im)) =
     childNodes container @
       [createFeedbackIcon ''pauseFeedback''
          ''M 12,26 16,26 16,10 12,10 z M 21,26 25,26 25,10 21,10 z'',
        createFeedbackIcon ''playFeedback''
          ''M 12,26 18.5,22 18.5,14 12,10 z M 18.5,22 25,18 25,18 18.5,14 z'',
        video (VideoPlayerManager VideoShortcutManager videoLink container im)]
   \<and> props (createFeedbackIcon i svgPath) ''id'' = Some (S i)
   \<and> props (createFeedbackIcon i svgPath) ''style'' = Some (S ''display: none;'')
   \<and> tagName (video (VideoPlayerManager VideoShortcutManager videoLink container im)) = ''video''
   \<and> props (video (VideoPlayerManager VideoShortcutManager videoLink container im)) ''controls''
       = Some (B True)
   \<and> props (video (VideoPlayerManager VideoShortcutManager videoLink container im)) ''autoplay''
       = Some (B True)
   \<and> props (video (VideoPlayerManager VideoShortcutManager videoLink container im)) ''id''
       = Some (S ''videoTag'')"
  by (simp add: VideoPlayerManager_def Let_def createAllFeedbackIcons_def appendChild_def
      enablePlayPauseFeedback_def addEventListener_def createVideoElement_props
      createFeedbackIcon_def)

theorem constructor_appends_icons_then_video_witness:
  "map (\<lambda>e. props e ''id'')
     (childNodes (outerDiv (VideoPlayerManager (\<lambda>v. ()) ''movie.mp4'' (createElement ''div'') ())))
     = [Some (S ''pauseFeedback''), Some (S ''playFeedback''), Some (S ''videoTag'')]"
  using constructor_appends_icons_then_video
    [of "\<lambda>v. ()" "''movie.mp4''" "createElement ''div''" "()" "''pauseFeedback''" "''x''"]
  by (simp add: createElement_def createFeedbackIcon_def)

section \<open>Binary64 rounding\<close>

lemma ilog2_bounds:
  assumes "0 < x"
  shows "2 powi (ilog2 x) \<le> x \<and> x < 2 powi (ilog2 x + 1)"
proof (cases "1 \<le> x")
  case True
  define n where "n = \<lfloor>x\<rfloor>"
  have n: "0 < n"
    using True by (simp add: n_def)
  then have b1: "1 \<le> bitlen n"
    using bitlen_eq_zero_iff [of n] bitlen_nonneg [of n] by linarith
  from bitlen_bounds [OF n] have lo: "2 ^ nat (bitlen n - 1) \<le> n" and hi: "n + 1 \<le> 2 ^ nat (bitlen n)"
    by auto
  have e: "ilog2 x = bitlen n - 1"
    by (simp add: ilog2_def True n_def)
  have "(2::rat) powi (bitlen n - 1) = of_int (2 ^ nat (bitlen n - 1))"
    using b1 by (simp add: power_int_nonneg_exp)
  also have "\<dots> \<le> of_int n"
    using lo by (simp only: of_int_le_iff)
  also have "\<dots> \<le> x"
    by (simp add: n_def)
  finally have 1: "2 powi (ilog2 x) \<le> x"
    by (simp add: e)
  have "x < of_int (n + 1)"
    using floor_correct [of x] by (simp add: n_def)
  also have "\<dots> \<le> of_int (2 ^ nat (bitlen n))"
    using hi by (simp only: of_int_le_iff)
  also have "\<dots> = (2::rat) powi (bitlen n)"
    using b1 by (simp add: power_int_nonneg_exp)
  finally have 2: "x < 2 powi (ilog2 x + 1)"
    by (simp add: e)
  from 1 2 show ?thesis ..
next
  case False
  define m where "m = \<lceil>1 / x\<rceil> - 1"
  define b where "b = bitlen m"
  from False assms have y: "1 < 1 / x"
    by simp
  then have m: "0 < m"
    by (simp add: m_def less_ceiling_iff)
  then have b1: "1 \<le> b"
    using bitlen_eq_zero_iff [of m] bitlen_nonneg [of m] by (simp add: b_def)
  from bitlen_bounds [OF m] have lo: "2 ^ nat (b - 1) \<le> m" and hi: "m + 1 \<le> 2 ^ nat b"
    by (auto simp: b_def)
  have e: "ilog2 x = - b"
    using False by (simp add: ilog2_def m_def b_def)
  have "1 / x \<le> of_int (m + 1)"
    using ceiling_correct [of "1 / x"] by (simp add: m_def)
  also have "\<dots> \<le> of_int (2 ^ nat b)"
    using hi by (simp only: of_int_le_iff)
  also have "\<dots> = (2::rat) ^ nat b"
    by simp
  finally have "1 / 2 ^ nat b \<le> x"
    using assms by (simp add: field_simps)
  moreover have "(2::rat) powi (- b) = 1 / 2 ^ nat b"
    using b1 by (simp add: power_int_minus_divide power_int_nonneg_exp)
  ultimately have 1: "2 powi (ilog2 x) \<le> x"
    by (simp add: e)
  have "(2::rat) ^ nat (b - 1) = of_int (2 ^ nat (b - 1))"
    by simp
  also have "\<dots> \<le> of_int m"
    using lo by (simp only: of_int_le_iff)
  also have "\<dots> < 1 / x"
    using ceiling_correct [of "1 / x"] by (simp add: m_def)
  finally have "x < 1 / 2 ^ nat (b - 1)"
    using assms by (simp add: field_simps)
  moreover have "(2::rat) powi (- b + 1) = 1 / 2 ^ nat (b - 1)"
  proof -
    have "(2::rat) powi (- b + 1) = 2 powi (- (b - 1))"
      by simp
    also have "\<dots> = 1 / 2 ^ nat (b - 1)"
      using b1 by (simp only: power_int_minus_divide) (simp add: power_int_nonneg_exp)
    finally show ?thesis .
  qed
  ultimately have 2: "x < 2 powi (ilog2 x + 1)"
    by (simp add: e)
  from 1 2 show ?thesis ..
qed

lemma rne_bounds: "\<lfloor>q\<rfloor> \<le> rne q \<and> rne q \<le> \<lfloor>q\<rfloor> + 1"
  by (simp add: rne_def Let_def)

lemma rne_of_int: "rne (of_int n) = n"
  by (simp add: rne_def)

lemma rne_close: "\<bar>of_int (rne q) - q\<bar> \<le> 1 / 2"
proof -
  have "of_int \<lfloor>q\<rfloor> \<le> q" "q < of_int \<lfloor>q\<rfloor> + 1"
    using floor_correct [of q] by simp_all
  then show ?thesis
    by (auto simp: rne_def Let_def)
qed

lemma rne_mono:
  assumes "q \<le> q'"
  shows "rne q \<le> rne q'"
proof (cases "\<lfloor>q\<rfloor> = \<lfloor>q'\<rfloor>")
  case True
  with assms show ?thesis
    by (auto simp: rne_def Let_def)
next
  case False
  with assms have "\<lfloor>q\<rfloor> + 1 \<le> \<lfloor>q'\<rfloor>"
    using floor_mono [of q q'] by linarith
  with rne_bounds [of q] rne_bounds [of q'] show ?thesis
    by linarith
qed

lemma ulp_pos: "0 < ulp x"
  by (simp add: ulp_def)

lemma ilog2_mono:
  assumes "0 < x" "x \<le> y"
  shows "ilog2 x \<le> ilog2 y"
proof (rule ccontr)
  assume "\<not> ilog2 x \<le> ilog2 y"
  then have "ilog2 y + 1 \<le> ilog2 x"
    by simp
  then have "(2::rat) powi (ilog2 y + 1) \<le> 2 powi (ilog2 x)"
    by (intro power_int_increasing) simp_all
  moreover have "2 powi (ilog2 x) \<le> x" "y < 2 powi (ilog2 y + 1)"
    using ilog2_bounds [of x] ilog2_bounds [of y] assms by simp_all
  ultimately show False
    using assms by linarith
qed

lemma ilog2_le:
  assumes "0 < x" "x \<le> 2 ^ n"
  shows "ilog2 x \<le> int n"
proof (rule ccontr)
  assume "\<not> ilog2 x \<le> int n"
  then have "int n + 1 \<le> ilog2 x"
    by simp
  then have "(2::rat) powi (int n + 1) \<le> 2 powi (ilog2 x)"
    by (intro power_int_increasing) simp_all
  moreover have "2 powi (ilog2 x) \<le> x"
    using ilog2_bounds [of x] assms by simp
  moreover have "(2::rat) powi (int n + 1) = 2 * 2 ^ n"
    by (simp add: power_int_add)
  ultimately show False
    using assms by simp
qed

lemma ulp_le:
  assumes "\<bar>x\<bar> \<le> 2 ^ n"
  shows "ulp x \<le> 2 ^ n / 2 ^ 52"
proof -
  have "max (ilog2 \<bar>x\<bar>) (- 1022) \<le> int n"
  proof (cases "x = 0")
    case True
    then show ?thesis
      by (simp add: ilog2_def bitlen_alt_def)
  next
    case False
    with assms ilog2_le [of "\<bar>x\<bar>" n] show ?thesis
      by simp
  qed
  then have "(2::rat) powi (max (ilog2 \<bar>x\<bar>) (- 1022) - 52) \<le> 2 powi (int n - 52)"
    by (intro power_int_increasing) simp_all
  also have "\<dots> = 2 ^ n / 2 ^ 52"
    by (simp add: power_int_diff)
  finally show ?thesis
    by (simp add: ulp_def)
qed

lemma to_double_close: "\<bar>to_double x - x\<bar> \<le> ulp x / 2"
proof (cases "x = 0")
  case True
  then show ?thesis
    using ulp_pos [of 0] by (simp add: to_double_def)
next
  case False
  have "\<bar>to_double x - x\<bar> = \<bar>of_int (rne (x / ulp x)) - x / ulp x\<bar> * ulp x"
    using False ulp_pos [of x] by (simp add: to_double_def abs_mult [symmetric] field_simps)
  also have "\<dots> \<le> 1 / 2 * ulp x"
    using rne_close [of "x / ulp x"] ulp_pos [of x] by (intro mult_right_mono) simp_all
  finally show ?thesis
    by simp
qed

lemma to_double_error:
  assumes "\<bar>x\<bar> \<le> 2 ^ n"
  shows "\<bar>to_double x - x\<bar> \<le> 2 ^ n / 2 ^ 53"
  using to_double_close [of x] ulp_le [OF assms] by simp

lemma to_double_nonneg: "0 \<le> x \<Longrightarrow> 0 \<le> to_double x"
  using rne_mono [of 0 "x / ulp x"] ulp_pos [of x] rne_of_int [of 0]
  by (simp add: to_double_def)

lemma to_double_nonpos: "x \<le> 0 \<Longrightarrow> to_double x \<le> 0"
  using rne_mono [of "x / ulp x" 0] ulp_pos [of x] rne_of_int [of 0]
  by (simp add: to_double_def mult_le_0_iff divide_le_0_iff)

lemma ulp_eq: "0 < x \<Longrightarrow> ulp x = 2 powi (max (ilog2 x) (- 1022) - 52)"
  by (simp add: ulp_def)

lemma to_double_upper:
  assumes "0 < x"
  shows "to_double x \<le> 2 powi (max (ilog2 x) (- 1022) + 1)"
proof -
  define e where "e = max (ilog2 x) (- 1022)"
  have u: "ulp x = 2 powi (e - 52)"
    using assms by (simp add: ulp_eq e_def)
  have top: "(2::rat) powi (e + 1) = 2 ^ 53 * ulp x"
  proof -
    have "(2::rat) powi (53 + (e - 52)) = 2 powi 53 * 2 powi (e - 52)"
      by (rule power_int_add) simp
    moreover have "53 + (e - 52) = e + 1"
      by simp
    ultimately show ?thesis
      by (simp add: u)
  qed
  have "x < 2 powi (ilog2 x + 1)"
    using ilog2_bounds [OF assms] by simp
  also have "\<dots> \<le> 2 powi (e + 1)"
    by (intro power_int_increasing) (simp_all add: e_def)
  finally have "x < 2 ^ 53 * ulp x"
    by (simp only: top)
  then have "x / ulp x \<le> of_int (2 ^ 53)"
    using ulp_pos [of x] by (simp add: field_simps)
  then have "rne (x / ulp x) \<le> 2 ^ 53"
    using rne_mono [of "x / ulp x" "of_int (2 ^ 53)"] by (simp only: rne_of_int)
  then have "(of_int (rne (x / ulp x)) :: rat) \<le> of_int (2 ^ 53)"
    by (simp only: of_int_le_iff)
  then have "of_int (rne (x / ulp x)) * ulp x \<le> 2 ^ 53 * ulp x"
    using ulp_pos [of x] by (intro mult_right_mono) simp_all
  then have "to_double x \<le> 2 ^ 53 * ulp x"
    using assms by (simp add: to_double_def)
  then have "to_double x \<le> 2 powi (e + 1)"
    by (simp only: top)
  then show ?thesis
    by (simp only: e_def)
qed

lemma to_double_lower:
  assumes "0 < x" and "- 1022 \<le> ilog2 x"
  shows "2 powi (ilog2 x) \<le> to_double x"
proof -
  define e where "e = ilog2 x"
  have u: "ulp x = 2 powi (e - 52)"
    using assms by (simp add: ulp_eq e_def max_def)
  have bot: "(2::rat) powi e = 2 ^ 52 * ulp x"
  proof -
    have "(2::rat) powi (52 + (e - 52)) = 2 powi 52 * 2 powi (e - 52)"
      by (rule power_int_add) simp
    moreover have "52 + (e - 52) = e"
      by simp
    ultimately show ?thesis
      by (simp add: u)
  qed
  have "2 powi e \<le> x"
    using ilog2_bounds [OF assms(1)] by (simp add: e_def)
  then have "2 ^ 52 * ulp x \<le> x"
    by (simp only: bot)
  then have "of_int (2 ^ 52) \<le> x / ulp x"
    using ulp_pos [of x] by (simp add: field_simps)
  then have "2 ^ 52 \<le> rne (x / ulp x)"
    using rne_mono [of "of_int (2 ^ 52)" "x / ulp x"] by (simp only: rne_of_int)
  then have "(of_int (2 ^ 52) :: rat) \<le> of_int (rne (x / ulp x))"
    by (simp only: of_int_le_iff)
  then have "2 ^ 52 * ulp x \<le> of_int (rne (x / ulp x)) * ulp x"
    using ulp_pos [of x] by (intro mult_right_mono) simp_all
  then have "2 ^ 52 * ulp x \<le> to_double x"
    using assms by (simp add: to_double_def)
  then have "2 powi e \<le> to_double x"
    by (simp only: bot)
  then show ?thesis
    by (simp only: e_def)
qed

lemma to_double_mono_pos:
  assumes "0 < x" and "x \<le> y"
  shows "to_double x \<le> to_double y"
proof -
  define ex where "ex = max (ilog2 x) (- 1022)"
  define ey where "ey = max (ilog2 y) (- 1022)"
  from assms have y: "0 < y"
    by simp
  have le: "ex \<le> ey"
    using ilog2_mono [OF assms] by (simp add: ex_def ey_def)
  show ?thesis
  proof (cases "ex = ey")
    case True
    then have "ulp x = ulp y"
      using assms y by (simp add: ulp_eq ex_def ey_def)
    moreover have "x / ulp y \<le> y / ulp y"
      using assms ulp_pos [of y] by (simp add: divide_right_mono)
    then have "(of_int (rne (x / ulp y)) :: rat) \<le> of_int (rne (y / ulp y))"
      using rne_mono by (simp only: of_int_le_iff)
    then have "of_int (rne (x / ulp y)) * ulp y \<le> of_int (rne (y / ulp y)) * ulp y"
      using ulp_pos [of y] by (intro mult_right_mono) simp_all
    ultimately show ?thesis
      using assms y by (simp add: to_double_def)
  next
    case False
    with le have lt: "ex + 1 \<le> ey"
      by simp
    then have n: "- 1022 \<le> ilog2 y" and ey: "ey = ilog2 y"
      by (simp_all add: ex_def ey_def)
    have "to_double x \<le> 2 powi (ex + 1)"
      using to_double_upper [OF assms(1)] by (simp add: ex_def)
    also have "\<dots> \<le> 2 powi ey"
      using lt by (intro power_int_increasing) simp_all
    also have "\<dots> \<le> to_double y"
      using to_double_lower [OF y n] by (simp add: ey)
    finally show ?thesis .
  qed
qed

lemma rne_minus: "rne (- q) = - rne q"
proof (cases "q = of_int \<lfloor>q\<rfloor>")
  case True
  then obtain n where "q = of_int n" ..
  then have "- q = of_int (- n)"
    by simp
  then show ?thesis
    using rne_of_int [of "- n"] rne_of_int [of n] \<open>q = of_int n\<close> by (simp only:)
next
  case False
  have "of_int \<lfloor>q\<rfloor> \<le> q"
    by simp
  with False have "of_int \<lfloor>q\<rfloor> < q"
    by (metis order_less_le)
  have "q < of_int \<lfloor>q\<rfloor> + 1"
    using floor_correct [of q] by simp
  with \<open>of_int \<lfloor>q\<rfloor> < q\<close> have "of_int \<lfloor>q\<rfloor> < q" "q < of_int \<lfloor>q\<rfloor> + 1"
    by simp_all
  then have f: "\<lfloor>- q\<rfloor> = - \<lfloor>q\<rfloor> - 1"
    by (intro floor_unique) simp_all
  show ?thesis
    using \<open>of_int \<lfloor>q\<rfloor> < q\<close> \<open>q < of_int \<lfloor>q\<rfloor> + 1\<close>
    by (auto simp: rne_def Let_def f)
qed

lemma to_double_minus: "to_double (- x) = - to_double x"
  by (simp add: to_double_def ulp_def rne_minus)

lemma to_double_mono:
  assumes "x \<le> y"
  shows "to_double x \<le> to_double y"
proof -
  consider "0 < x" | "x \<le> 0" "0 \<le> y" | "y < 0"
    using assms by linarith
  then show ?thesis
  proof cases
    case 1
    then show ?thesis
      using assms by (rule to_double_mono_pos)
  next
    case 2
    then show ?thesis
      using to_double_nonpos [of x] to_double_nonneg [of y] by simp
  next
    case 3
    with assms have "to_double (- y) \<le> to_double (- x)"
      by (intro to_double_mono_pos) simp_all
    then show ?thesis
      by (simp add: to_double_minus)
  qed
qed

lemma to_double_consts:
  "to_double 1 = 1" "to_double 2 = 2" "to_double 100 = 100" "to_double (1 / 4) = 1 / 4"
  "to_double (1 / 2) = 1 / 2" "to_double (7 / 4) = 7 / 4" "to_double (9 / 4) = 9 / 4"
  by code_simp+

lemma to_double_min:
  assumes "to_double b = b"
  shows "to_double (min a b) = min (to_double a) b"
proof (cases "a \<le> b")
  case True
  then have "to_double a \<le> b"
    using to_double_mono [of a b] assms by simp
  with True show ?thesis
    by (simp add: min_def)
next
  case False
  then have "b \<le> to_double a"
    using to_double_mono [of b a] assms by simp
  with False show ?thesis
    by (simp add: min_def assms)
qed

lemma to_double_max:
  assumes "to_double b = b"
  shows "to_double (max b a) = max b (to_double a)"
proof (cases "b \<le> a")
  case True
  then have "b \<le> to_double a"
    using to_double_mono [of b a] assms by simp
  with True show ?thesis
    by (simp add: max_def)
next
  case False
  then have "to_double a \<le> b"
    using to_double_mono [of a b] assms by simp
  with False show ?thesis
    by (auto simp: max_def assms)
qed

lemma to_double_0: "to_double 0 = 0"
  by (simp add: to_double_def)

section \<open>Playback rate\<close>

text \<open>
  C5. From a playback rate between 0.25 and 2, \<^verbatim>\<open>increaseSpeed\<close> sets the rate to
  \<open>min (rate + 0.25) 2\<close> and \<^verbatim>\<open>decreaseSpeed\<close> to \<open>max 0.25 (rate - 0.25)\<close>: the new
  rate is the binary64 value nearest to that number, so it is that number whenever it is
  representable (as at every multiple of 0.25) and within \<open>2\<^sup>-\<^sup>5\<^sup>2\<close> of it always. The
  new rate lies between 0.25 and 2 again. At rate 2, \<^verbatim>\<open>increaseSpeed\<close> leaves 2.
\<close>

theorem speed_steps:
  assumes "1 / 4 \<le> playbackRate w" and "playbackRate w \<le> 2"
  shows "playbackRate (increaseSpeed w) = to_double (min (playbackRate w + 1 / 4) 2)
    \<and> playbackRate (decreaseSpeed w) = to_double (max (1 / 4) (playbackRate w - 1 / 4))
    \<and> \<bar>playbackRate (increaseSpeed w) - min (playbackRate w + 1 / 4) 2\<bar> \<le> 1 / 2 ^ 52
    \<and> \<bar>playbackRate (decreaseSpeed w) - max (1 / 4) (playbackRate w - 1 / 4)\<bar> \<le> 1 / 2 ^ 52
    \<and> 1 / 4 \<le> playbackRate (increaseSpeed w) \<and> playbackRate (increaseSpeed w) \<le> 2
    \<and> 1 / 4 \<le> playbackRate (decreaseSpeed w) \<and> playbackRate (decreaseSpeed w) \<le> 2
    \<and> (is_double (playbackRate w + 1 / 4) \<longrightarrow>
         playbackRate (increaseSpeed w) = min (playbackRate w + 1 / 4) 2)
    \<and> (is_double (playbackRate w - 1 / 4) \<longrightarrow>
         playbackRate (decreaseSpeed w) = max (1 / 4) (playbackRate w - 1 / 4))"
proof -
  define r where "r = playbackRate w"
  have inc: "playbackRate (increaseSpeed w) = to_double (min (r + 1 / 4) 2)"
    by (simp add: increaseSpeed_def js_add_def r_def to_double_min to_double_consts)
  have dec: "playbackRate (decreaseSpeed w) = to_double (max (1 / 4) (r - 1 / 4))"
    by (simp add: decreaseSpeed_def js_sub_def r_def to_double_max to_double_consts)
  from assms have up: "1 / 2 \<le> min (r + 1 / 4) 2" "min (r + 1 / 4) 2 \<le> 2"
    and down: "1 / 4 \<le> max (1 / 4) (r - 1 / 4)" "max (1 / 4) (r - 1 / 4) \<le> 7 / 4"
    by (simp_all add: r_def min_def max_def)
  have "\<bar>min (r + 1 / 4) 2\<bar> \<le> 2"
    using up by linarith
  then have "\<bar>min (r + 1 / 4) 2\<bar> \<le> 2 ^ 1"
    by simp
  then have e1: "\<bar>to_double (min (r + 1 / 4) 2) - min (r + 1 / 4) 2\<bar> \<le> 1 / 2 ^ 52"
    using to_double_error [of "min (r + 1 / 4) 2" 1] by simp
  have "\<bar>max (1 / 4) (r - 1 / 4)\<bar> \<le> 2"
    using down by linarith
  then have "\<bar>max (1 / 4) (r - 1 / 4)\<bar> \<le> 2 ^ 1"
    by simp
  then have e2: "\<bar>to_double (max (1 / 4) (r - 1 / 4)) - max (1 / 4) (r - 1 / 4)\<bar> \<le> 1 / 2 ^ 52"
    using to_double_error [of "max (1 / 4) (r - 1 / 4)" 1] by simp
  have b1: "1 / 4 \<le> to_double (min (r + 1 / 4) 2)"
    using to_double_mono [OF up(1)] by (simp add: to_double_consts)
  have b2: "to_double (min (r + 1 / 4) 2) \<le> 2"
    using to_double_mono [OF up(2)] by (simp add: to_double_consts)
  have b3: "1 / 4 \<le> to_double (max (1 / 4) (r - 1 / 4))"
    using to_double_mono [OF down(1)] by (simp add: to_double_consts)
  have b4: "to_double (max (1 / 4) (r - 1 / 4)) \<le> 2"
    using to_double_mono [OF down(2)] by (simp add: to_double_consts)
  have x1: "to_double (min (r + 1 / 4) 2) = min (r + 1 / 4) 2" if "is_double (r + 1 / 4)"
    using that by (simp add: is_double_def min_def to_double_consts)
  have x2: "to_double (max (1 / 4) (r - 1 / 4)) = max (1 / 4) (r - 1 / 4)" if "is_double (r - 1 / 4)"
    using that by (simp add: is_double_def max_def to_double_consts)
  from e1 e2 b1 b2 b3 b4 x1 x2 show ?thesis
    unfolding inc dec r_def [symmetric] by simp
qed

theorem speed_steps_witness:
  "playbackRate (increaseSpeed (fresh\<lparr>playbackRate := 2\<rparr>)) = 2
   \<and> playbackRate (decreaseSpeed (fresh\<lparr>playbackRate := 2\<rparr>)) = 7 / 4
   \<and> playbackRate (increaseSpeed (fresh\<lparr>playbackRate := 1 / 4\<rparr>)) = 1 / 2
   \<and> playbackRate (decreaseSpeed (fresh\<lparr>playbackRate := 1 / 4\<rparr>)) = 1 / 4"
  using speed_steps [of "fresh\<lparr>playbackRate := 2\<rparr>"]
    speed_steps [of "fresh\<lparr>playbackRate := 1 / 4\<rparr>"]
  by (simp add: fresh_def to_double_consts)

section \<open>Volume\<close>

lemma lit_0_05_val: "lit_0_05 = 3602879701896397 / 72057594037927936"
  by code_simp

lemma close_trans:
  fixes a b c :: rat
  shows "\<bar>a - b\<bar> \<le> d \<Longrightarrow> \<bar>b - c\<bar> \<le> e \<Longrightarrow> d + e \<le> f \<Longrightarrow> \<bar>a - c\<bar> \<le> f"
  by linarith

lemma volume_sum_close:
  assumes "0 \<le> v" and "v \<le> 1"
  shows "\<bar>js_add v lit_0_05 - (v + 1 / 20)\<bar> \<le> 3 / 2 ^ 53"
    and "\<bar>js_sub v lit_0_05 - (v - 1 / 20)\<bar> \<le> 3 / 2 ^ 53"
proof -
  have c: "\<bar>lit_0_05 - 1 / 20\<bar> \<le> 1 / 2 ^ 53" "0 \<le> lit_0_05" "lit_0_05 \<le> 1"
    by (simp_all add: lit_0_05_val)
  have "\<bar>v + lit_0_05\<bar> \<le> 2 ^ 1"
    using assms c by simp
  then have "\<bar>to_double (v + lit_0_05) - (v + lit_0_05)\<bar> \<le> 2 / 2 ^ 53"
    using to_double_error [of "v + lit_0_05" 1] by simp
  moreover have "\<bar>v + lit_0_05 - (v + 1 / 20)\<bar> \<le> 1 / 2 ^ 53"
    using c(1) by simp
  ultimately show "\<bar>js_add v lit_0_05 - (v + 1 / 20)\<bar> \<le> 3 / 2 ^ 53"
    unfolding js_add_def by (rule close_trans) simp
  have "\<bar>v - lit_0_05\<bar> \<le> 2 ^ 1"
    using assms c by simp
  then have "\<bar>to_double (v - lit_0_05) - (v - lit_0_05)\<bar> \<le> 2 / 2 ^ 53"
    using to_double_error [of "v - lit_0_05" 1] by simp
  moreover have "\<bar>v - lit_0_05 - (v - 1 / 20)\<bar> \<le> 1 / 2 ^ 53"
    using c(1) by (simp add: abs_minus_commute)
  ultimately show "\<bar>js_sub v lit_0_05 - (v - 1 / 20)\<bar> \<le> 3 / 2 ^ 53"
    unfolding js_sub_def by (rule close_trans) simp
qed

lemma scaled_close:
  assumes "\<bar>x\<bar> \<le> 21 / 20" and "\<bar>s - x\<bar> \<le> 3 / 2 ^ 53"
  shows "\<bar>js_mul s 100 - 100 * x\<bar> \<le> 1 / 10 ^ 12"
proof -
  have "\<bar>s - 0\<bar> \<le> 32 / 25"
    using assms(2) by (rule close_trans [where e = "21 / 20"]) (use assms(1) in simp_all)
  then have "\<bar>s\<bar> \<le> 32 / 25"
    by simp
  then have "\<bar>s * 100\<bar> \<le> 2 ^ 7"
    by (simp add: abs_mult)
  then have "\<bar>to_double (s * 100) - s * 100\<bar> \<le> 128 / 2 ^ 53"
    using to_double_error [of "s * 100" 7] by simp
  moreover have "\<bar>s * 100 - 100 * x\<bar> \<le> 300 / 2 ^ 53"
  proof -
    have "s * 100 - 100 * x = (s - x) * 100"
      by (simp add: algebra_simps)
    then have "\<bar>s * 100 - 100 * x\<bar> = \<bar>s - x\<bar> * 100"
      by (simp only: abs_mult abs_numeral)
    with assms(2) show ?thesis
      by simp
  qed
  ultimately show ?thesis
    unfolding js_mul_def by (rule close_trans) simp
qed

lemma floor_clear:
  assumes "clear_of_tie y" and "\<bar>p - y\<bar> \<le> 1 / 10 ^ 12"
  shows "\<lfloor>p + 1 / 2\<rfloor> = \<lfloor>y + 1 / 2\<rfloor>"
proof -
  have "\<lfloor>y + 1 / 2 - 1 / 10 ^ 12\<rfloor> \<le> \<lfloor>p + 1 / 2\<rfloor>" "\<lfloor>p + 1 / 2\<rfloor> \<le> \<lfloor>y + 1 / 2 + 1 / 10 ^ 12\<rfloor>"
    using assms(2) by (intro floor_mono; linarith)+
  moreover have "\<lfloor>y + 1 / 2 - 1 / 10 ^ 12\<rfloor> \<le> \<lfloor>y + 1 / 2\<rfloor>" "\<lfloor>y + 1 / 2\<rfloor> \<le> \<lfloor>y + 1 / 2 + 1 / 10 ^ 12\<rfloor>"
    by (intro floor_mono; simp)+
  ultimately show ?thesis
    using assms(1) by (simp add: clear_of_tie_def)
qed

lemma roundBy2Decimals_clear:
  assumes "\<bar>x\<bar> \<le> 21 / 20" and "\<bar>s - x\<bar> \<le> 3 / 2 ^ 53" and "clear_of_tie (100 * x)"
  shows "roundBy2Decimals s = to_double (round_half_up_2dec x)"
proof -
  have "\<lfloor>js_mul s 100 + 1 / 2\<rfloor> = \<lfloor>100 * x + 1 / 2\<rfloor>"
    using assms(3) scaled_close [OF assms(1,2)] by (rule floor_clear)
  then show ?thesis
    by (simp add: roundBy2Decimals_def Math_round_def js_div_def round_half_up_2dec_def
        mult.commute)
qed

lemma roundBy2Decimals_nonneg:
  assumes "0 \<le> s"
  shows "0 \<le> roundBy2Decimals s"
proof -
  have "0 \<le> js_mul s 100"
    using assms by (simp add: js_mul_def to_double_nonneg)
  then have "0 \<le> \<lfloor>js_mul s 100 + 1 / 2\<rfloor>"
    by simp
  then show ?thesis
    by (simp add: roundBy2Decimals_def Math_round_def js_div_def to_double_nonneg)
qed

lemma roundBy2Decimals_le_1:
  assumes "s \<le> 1"
  shows "roundBy2Decimals s \<le> 1"
proof -
  have "to_double (s * 100) \<le> to_double 100"
    using assms by (intro to_double_mono) simp
  then have "js_mul s 100 + 1 / 2 < of_int 101"
    by (simp add: js_mul_def to_double_consts)
  then have "\<lfloor>js_mul s 100 + 1 / 2\<rfloor> < 101"
    by (simp only: floor_less_iff)
  then have "of_int \<lfloor>js_mul s 100 + 1 / 2\<rfloor> / 100 \<le> (1::rat)"
    by simp
  then have "to_double (of_int \<lfloor>js_mul s 100 + 1 / 2\<rfloor> / 100) \<le> to_double 1"
    by (rule to_double_mono)
  then show ?thesis
    by (simp add: roundBy2Decimals_def Math_round_def js_div_def to_double_consts)
qed

lemma lit_0_05_nonneg: "0 \<le> lit_0_05"
  by (simp add: lit_0_05_val)

lemma increaseVolume_range:
  assumes "0 \<le> volume w"
  shows "0 \<le> volume (increaseVolumeBy5Percent w) \<and> volume (increaseVolumeBy5Percent w) \<le> 1"
proof -
  have "0 \<le> js_add (volume w) lit_0_05"
    using assms lit_0_05_nonneg by (simp add: js_add_def to_double_nonneg)
  then show ?thesis
    by (simp add: increaseVolumeBy5Percent_def roundBy2Decimals_nonneg)
qed

lemma decreaseVolume_range:
  assumes "volume w \<le> 1"
  shows "0 \<le> volume (decreaseVolumeBy5Percent w) \<and> volume (decreaseVolumeBy5Percent w) \<le> 1"
proof -
  have "to_double (volume w - lit_0_05) \<le> to_double 1"
    using assms lit_0_05_nonneg by (intro to_double_mono) simp
  then have "js_sub (volume w) lit_0_05 \<le> 1"
    by (simp add: js_sub_def to_double_consts)
  then show ?thesis
    by (simp add: decreaseVolumeBy5Percent_def roundBy2Decimals_le_1)
qed

lemma increaseVolume_exact:
  assumes "0 \<le> volume w" and "volume w \<le> 1" and "clear_of_tie (100 * (volume w + 1 / 20))"
  shows "volume (increaseVolumeBy5Percent w)
    = to_double (min (round_half_up_2dec (volume w + 1 / 20)) 1)"
proof -
  have "\<bar>volume w + 1 / 20\<bar> \<le> 21 / 20"
    using assms(1,2) by linarith
  then have "roundBy2Decimals (js_add (volume w) lit_0_05)
      = to_double (round_half_up_2dec (volume w + 1 / 20))"
    using volume_sum_close(1) [OF assms(1,2)] assms(3) by (intro roundBy2Decimals_clear)
  then show ?thesis
    by (simp add: increaseVolumeBy5Percent_def to_double_min to_double_consts)
qed

lemma decreaseVolume_exact:
  assumes "0 \<le> volume w" and "volume w \<le> 1" and "clear_of_tie (100 * (volume w - 1 / 20))"
  shows "volume (decreaseVolumeBy5Percent w)
    = to_double (max 0 (round_half_up_2dec (volume w - 1 / 20)))"
proof -
  have "\<bar>volume w - 1 / 20\<bar> \<le> 21 / 20"
    using assms(1,2) by linarith
  then have "roundBy2Decimals (js_sub (volume w) lit_0_05)
      = to_double (round_half_up_2dec (volume w - 1 / 20))"
    using volume_sum_close(2) [OF assms(1,2)] assms(3) by (intro roundBy2Decimals_clear)
  then show ?thesis
    by (simp add: decreaseVolumeBy5Percent_def to_double_max to_double_0)
qed

text \<open>
  C1, as stated, for every starting volume. At the binary64 value of 0.055 the difference
  \<open>volume - 0.05\<close> comes out just below 0.005, its hundredfold just below one half, and
  \<^verbatim>\<open>decreaseVolumeBy5Percent\<close> sets the volume to 0, while round-half-up of the exact
  difference at two decimals is 0.01.
\<close>

theorem decreaseVolume_tie_counterexample:
  "volume (decreaseVolumeBy5Percent (fresh\<lparr>volume := to_double (55 / 1000)\<rparr>)) = 0
   \<and> to_double (max 0 (round_half_up_2dec (to_double (55 / 1000) - 1 / 20))) = to_double (1 / 100)
   \<and> round_half_up_2dec (55 / 1000 - 1 / 20) = 1 / 100
   \<and> 0 < to_double (1 / 100)"
  by code_simp

text \<open>
  C1, as amended. From a volume between 0 and 1, \<^verbatim>\<open>increaseVolumeBy5Percent\<close> rounds the sum
  \<open>volume + 0.05\<close> to two decimals and then clamps it to at most 1, and
  \<^verbatim>\<open>decreaseVolumeBy5Percent\<close> rounds \<open>volume - 0.05\<close> and then clamps it to at least 0;
  the new volume lies between 0 and 1. The sum, the scaling by 100 and the division by
  100 are binary64 operations: whenever 100 times the exact sum is clear of a rounding
  tie, the new volume is the binary64 value nearest to the exact round-half-up rounding,
  clamped. From 0.97 one increase gives 1.
\<close>

theorem volume_steps:
  assumes "0 \<le> volume w" and "volume w \<le> 1"
  shows "volume (increaseVolumeBy5Percent w) = min (roundBy2Decimals (js_add (volume w) lit_0_05)) 1
    \<and> volume (decreaseVolumeBy5Percent w) = max 0 (roundBy2Decimals (js_sub (volume w) lit_0_05))
    \<and> 0 \<le> volume (increaseVolumeBy5Percent w) \<and> volume (increaseVolumeBy5Percent w) \<le> 1
    \<and> 0 \<le> volume (decreaseVolumeBy5Percent w) \<and> volume (decreaseVolumeBy5Percent w) \<le> 1
    \<and> (clear_of_tie (100 * (volume w + 1 / 20)) \<longrightarrow>
         volume (increaseVolumeBy5Percent w)
           = to_double (min (round_half_up_2dec (volume w + 1 / 20)) 1))
    \<and> (clear_of_tie (100 * (volume w - 1 / 20)) \<longrightarrow>
         volume (decreaseVolumeBy5Percent w)
           = to_double (max 0 (round_half_up_2dec (volume w - 1 / 20))))"
proof -
  have "volume (increaseVolumeBy5Percent w) = min (roundBy2Decimals (js_add (volume w) lit_0_05)) 1"
    and "volume (decreaseVolumeBy5Percent w) = max 0 (roundBy2Decimals (js_sub (volume w) lit_0_05))"
    by (simp_all add: increaseVolumeBy5Percent_def decreaseVolumeBy5Percent_def)
  with increaseVolume_range [OF assms(1)] decreaseVolume_range [OF assms(2)]
    increaseVolume_exact [OF assms] decreaseVolume_exact [OF assms]
  show ?thesis
    by blast
qed

theorem volume_steps_witness:
  "volume (increaseVolumeBy5Percent (fresh\<lparr>volume := to_double (97 / 100)\<rparr>)) = 1
   \<and> volume (decreaseVolumeBy5Percent (fresh\<lparr>volume := to_double (97 / 100)\<rparr>))
       = to_double (92 / 100)"
proof -
  define w where "w = fresh\<lparr>volume := to_double (97 / 100)\<rparr>"
  have "0 \<le> volume w" and "volume w \<le> 1"
    unfolding w_def by code_simp+
  from volume_steps [OF this]
  have i: "clear_of_tie (100 * (volume w + 1 / 20)) \<longrightarrow> volume (increaseVolumeBy5Percent w)
      = to_double (min (round_half_up_2dec (volume w + 1 / 20)) 1)"
    and d: "clear_of_tie (100 * (volume w - 1 / 20)) \<longrightarrow> volume (decreaseVolumeBy5Percent w)
      = to_double (max 0 (round_half_up_2dec (volume w - 1 / 20)))"
    by blast+
  have "clear_of_tie (100 * (volume w + 1 / 20))"
    unfolding w_def by code_simp
  with i have "volume (increaseVolumeBy5Percent w)
      = to_double (min (round_half_up_2dec (volume w + 1 / 20)) 1)" ..
  also have "\<dots> = 1"
    unfolding w_def by code_simp
  finally have 1: "volume (increaseVolumeBy5Percent w) = 1" .
  have "clear_of_tie (100 * (volume w - 1 / 20))"
    unfolding w_def by code_simp
  with d have "volume (decreaseVolumeBy5Percent w)
      = to_double (max 0 (round_half_up_2dec (volume w - 1 / 20)))" ..
  also have "\<dots> = to_double (92 / 100)"
    unfolding w_def by code_simp
  finally have 2: "volume (decreaseVolumeBy5Percent w) = to_double (92 / 100)" .
  from 1 2 show ?thesis
    unfolding w_def ..
qed

lemma near_integer_clear:
  assumes "\<bar>y - of_int n\<bar> \<le> 1 / 10" 
  shows "clear_of_tie y" and "\<lfloor>y + 1 / 2\<rfloor> = n"
proof -
  have "\<lfloor>y + 1 / 2 - 1 / 10 ^ 12\<rfloor> = n" "\<lfloor>y + 1 / 2 + 1 / 10 ^ 12\<rfloor> = n" "\<lfloor>y + 1 / 2\<rfloor> = n"
    using assms by (intro floor_unique; simp; linarith)+
  then show "clear_of_tie y" and "\<lfloor>y + 1 / 2\<rfloor> = n"
    by (simp_all add: clear_of_tie_def)
qed

text \<open>
  Two-decimal volumes. From the binary64 value of \<open>k / 100\<close>, \<open>k\<close> from 0 to 100, an
  increase gives the binary64 value of \<open>min (k + 5) 100 / 100\<close> and a decrease that of
  \<open>max (k - 5) 0 / 100\<close>: steps of 5 percent do not drift.
\<close>

theorem volume_steps_on_grid:
  assumes "k \<le> 100" and "volume w = to_double (of_nat k / 100)"
  shows "volume (increaseVolumeBy5Percent w) = to_double (of_nat (min (k + 5) 100) / 100)
    \<and> volume (decreaseVolumeBy5Percent w) = to_double (of_nat (k - 5) / 100)"
proof -
  define v where "v = volume w"
  have g: "(0::rat) \<le> of_nat k / 100" "of_nat k / 100 \<le> (1::rat)"
    using assms(1) by simp_all
  then have "\<bar>of_nat k / 100 :: rat\<bar> \<le> 2 ^ 0"
    by simp
  then have close: "\<bar>v - of_nat k / 100\<bar> \<le> 1 / 2 ^ 53"
    using to_double_error [of "of_nat k / 100" 0] by (simp add: v_def assms(2))
  have range: "0 \<le> volume w" "volume w \<le> 1"
    using to_double_nonneg [OF g(1)] to_double_mono [OF g(2)]
    by (simp_all add: assms(2) to_double_consts)
  have up: "\<bar>100 * (v + 1 / 20) - of_int (int k + 5)\<bar> \<le> 1 / 10"
  proof -
    have "100 * (v + 1 / 20) - of_int (int k + 5) = (v - of_nat k / 100) * 100"
      by (simp add: algebra_simps)
    then have "\<bar>100 * (v + 1 / 20) - of_int (int k + 5)\<bar> = \<bar>v - of_nat k / 100\<bar> * 100"
      by (simp only: abs_mult abs_numeral)
    with close show ?thesis
      by simp
  qed
  have down: "\<bar>100 * (v - 1 / 20) - of_int (int k - 5)\<bar> \<le> 1 / 10"
  proof -
    have "100 * (v - 1 / 20) - of_int (int k - 5) = (v - of_nat k / 100) * 100"
      by (simp add: algebra_simps)
    then have "\<bar>100 * (v - 1 / 20) - of_int (int k - 5)\<bar> = \<bar>v - of_nat k / 100\<bar> * 100"
      by (simp only: abs_mult abs_numeral)
    with close show ?thesis
      by simp
  qed
  have "round_half_up_2dec (v + 1 / 20) = of_int (int k + 5) / 100"
    using near_integer_clear(2) [OF up] by (simp add: round_half_up_2dec_def mult.commute)
  then have 1: "min (round_half_up_2dec (v + 1 / 20)) 1 = of_nat (min (k + 5) 100) / 100"
    by (simp add: min_def)
  have "round_half_up_2dec (v - 1 / 20) = of_int (int k - 5) / 100"
    using near_integer_clear(2) [OF down] by (simp add: round_half_up_2dec_def mult.commute)
  then have 2: "max 0 (round_half_up_2dec (v - 1 / 20)) = of_nat (k - 5) / 100"
    by (simp add: max_def of_nat_diff)
  have "volume (increaseVolumeBy5Percent w) = to_double (min (round_half_up_2dec (v + 1 / 20)) 1)"
    unfolding v_def using range near_integer_clear(1) [OF up]
    by (intro increaseVolume_exact) (simp_all add: v_def)
  moreover have "volume (decreaseVolumeBy5Percent w) = to_double (max 0 (round_half_up_2dec (v - 1 / 20)))"
    unfolding v_def using range near_integer_clear(1) [OF down]
    by (intro decreaseVolume_exact) (simp_all add: v_def)
  ultimately show ?thesis
    by (simp add: 1 2)
qed

theorem volume_steps_on_grid_witness:
  "volume (increaseVolumeBy5Percent (fresh\<lparr>volume := to_double (95 / 100)\<rparr>)) = 1
   \<and> volume (decreaseVolumeBy5Percent (fresh\<lparr>volume := to_double (95 / 100)\<rparr>))
       = to_double (90 / 100)"
  using volume_steps_on_grid [of 95 "fresh\<lparr>volume := to_double (95 / 100)\<rparr>"]
  by (simp add: to_double_consts)

end
